theory Spec2Isabelle
  imports Complex_Main "HOL-Library.Sublist" "HOL-Library.Log_Nat"
begin

section \<open>Values of the Python program\<close>

text \<open>
  The module \<^verbatim>\<open>readers/readers.py\<close> defines the class \<^verbatim>\<open>Reader\<close>. Its methods
  \<^verbatim>\<open>check_arguments\<close>, \<^verbatim>\<open>index_of_closest_time\<close> and \<^verbatim>\<open>indices_min_max_depth\<close> are
  embedded here as functions of a record of the attributes they read.

  A \<^verbatim>\<open>datetime\<close> is a number of microseconds since a fixed epoch (the resolution of
  Python's datetime) and a \<^verbatim>\<open>timedelta\<close> a number of microseconds. The coordinates and
  depths are floats that the module only compares: they are modelled as real numbers
  (no NaN). The floats of \<^verbatim>\<open>index_of_closest_time\<close> are computed, and are modelled as
  IEEE doubles with their rounding (section \<^verbatim>\<open>Reader.index_of_closest_time\<close>).
\<close>

type_synonym datetime = int
type_synonym timedelta = int

text \<open>An ndarray of dimension 0 (what \<^verbatim>\<open>np.asarray\<close> makes of a scalar) or 1.\<close>

datatype 'a ndarray = Arr0 'a | Arr1 "'a list"

text \<open>The arguments \<^verbatim>\<open>x\<close>, \<^verbatim>\<open>y\<close>, \<^verbatim>\<open>depth\<close>: "float or ndarrays".\<close>

datatype number_arg = Scalar real | Array "real list"

text \<open>The argument \<^verbatim>\<open>variables\<close>: "string, or list of strings".\<close>

datatype variables_arg = Str string | StrList "string list"

text \<open>
  Every exception the modelled code can raise. The first four are the \<^verbatim>\<open>ValueError\<close>s
  that \<^verbatim>\<open>check_arguments\<close> raises itself: \<open>VariableNotAvailable\<close> carries the offending
  variable and the catalog \<^verbatim>\<open>self.variables\<close>, the two operands its message is built
  from; the two time errors carry the arguments of the \<^verbatim>\<open>%\<close> format; \<open>AllOutside\<close> carries
  the message. The others are raised by Python and numpy operations the code calls.
\<close>

datatype error =
    VariableNotAvailable string "string list"
  | TimeBeforeFirst datetime datetime
  | TimeAfterLast datetime datetime
  | AllOutside string
  | TypeError_compare_None
  | TypeError_len_unsized
  | TypeError_operand_None
  | ValueError_broadcast
  | ValueError_empty_sequence
  | IndexError
  | ZeroDivisionError

record Reader =
  name :: string
  variables :: "string list"
  startTime :: "datetime option"
  endTime :: "datetime option"
  timeStep :: timedelta
  times_list :: "datetime list"
  xmin :: real
  xmax :: real
  ymin :: real
  ymax :: real
  depths :: "real list"

section \<open>Python and numpy operations used by the module\<close>

fun np_asarray :: "number_arg \<Rightarrow> real ndarray" where
  "np_asarray (Scalar v) = Arr0 v"
| "np_asarray (Array vs) = Arr1 vs"

text \<open>\<^verbatim>\<open>len(a)\<close>: a 0-dimensional array has no length ("len() of unsized object").\<close>

fun len :: "'a ndarray \<Rightarrow> error + nat" where
  "len (Arr0 v) = Inl TypeError_len_unsized"
| "len (Arr1 vs) = Inr (length vs)"

text \<open>
  \<^verbatim>\<open>a | b\<close> on boolean arrays, with numpy's broadcasting between dimensions 0 and 1:
  a 0-dimensional operand or an operand of length one is stretched, other lengths must agree.
\<close>

fun np_or :: "bool ndarray \<Rightarrow> bool ndarray \<Rightarrow> error + bool ndarray" where
  "np_or (Arr0 a) (Arr0 b) = Inr (Arr0 (a \<or> b))"
| "np_or (Arr0 a) (Arr1 bs) = Inr (Arr1 (map (\<lambda>b. a \<or> b) bs))"
| "np_or (Arr1 as) (Arr0 b) = Inr (Arr1 (map (\<lambda>a. a \<or> b) as))"
| "np_or (Arr1 as) (Arr1 bs) =
     (if length as = length bs then Inr (Arr1 (map (\<lambda>(a, b). a \<or> b) (zip as bs)))
      else if length as = 1 then Inr (Arr1 (map (\<lambda>b. hd as \<or> b) bs))
      else if length bs = 1 then Inr (Arr1 (map (\<lambda>a. a \<or> hd bs) as))
      else Inl ValueError_broadcast)"

text \<open>The left operand of a chain \<^verbatim>\<open>a | b | c\<close> may already have failed.\<close>

fun or_next :: "error + bool ndarray \<Rightarrow> bool ndarray \<Rightarrow> error + bool ndarray" where
  "or_next (Inl e) b = Inl e"
| "or_next (Inr a) b = np_or a b"

text \<open>
  \<^verbatim>\<open>np.where(mask)[0]\<close>: the indices of the true entries, in increasing order. The numpy
  the module was written for treats a 0-dimensional mask as an array of one element.
\<close>

fun np_where0 :: "bool ndarray \<Rightarrow> nat list" where
  "np_where0 (Arr0 b) = (if b then [0] else [])"
| "np_where0 (Arr1 bs) = filter (\<lambda>i. bs ! i) [0..<length bs]"

section \<open>\<^verbatim>\<open>Reader.check_arguments\<close>\<close>



text \<open>
  The loop \<^verbatim>\<open>for variable in variables\<close>: the first variable that is not in
  \<^verbatim>\<open>self.variables\<close> raises; \<open>None\<close> when the loop runs to its end.
\<close>

fun check_variables :: "string list \<Rightarrow> string list \<Rightarrow> error option" where
  "check_variables catalog [] = None"
| "check_variables catalog (variable # rest) =
     (if variable \<notin> set catalog
      then Some (VariableNotAvailable variable catalog)
      else check_variables catalog rest)"

text \<open>
  \<^verbatim>\<open>if self.startTime is not None and time < self.startTime: raise ...\<close>. Comparing
  \<^verbatim>\<open>None\<close> with a datetime is a \<^verbatim>\<open>TypeError\<close>.
\<close>

fun check_start :: "datetime option \<Rightarrow> datetime option \<Rightarrow> error option" where
  "check_start None time = None"
| "check_start (Some s) None = Some TypeError_compare_None"
| "check_start (Some s) (Some t) = (if t < s then Some (TimeBeforeFirst t s) else None)"

text \<open>\<^verbatim>\<open>if self.endTime is not None and time > self.endTime: raise ...\<close>\<close>

fun check_end :: "datetime option \<Rightarrow> datetime option \<Rightarrow> error option" where
  "check_end None time = None"
| "check_end (Some e) None = Some TypeError_compare_None"
| "check_end (Some e) (Some t) = (if t > e then Some (TimeAfterLast t e) else None)"

text \<open>
  The mask of lines 119 and 120, as the source writes it:
  \<^verbatim>\<open>(x < self.xmin) | (x > self.xmax) | (y < self.xmin) | (y > self.ymax)\<close>.
  The third comparison is against \<^verbatim>\<open>self.xmin\<close>.
\<close>

definition outside_mask :: "Reader \<Rightarrow> real ndarray \<Rightarrow> real ndarray \<Rightarrow> error + bool ndarray" where
  "outside_mask self x y =
     or_next
       (or_next
         (np_or (map_ndarray (\<lambda>v. v < xmin self) x) (map_ndarray (\<lambda>v. v > xmax self) x))
         (map_ndarray (\<lambda>v. v < xmin self) y))
       (map_ndarray (\<lambda>v. v > ymax self) y)"

definition all_outside_message :: "Reader \<Rightarrow> string" where
  "all_outside_message self = ''All particles are outside domain of reader '' @ name self"

text \<open>Lines 97 and 98: \<^verbatim>\<open>if time is None: time = self.startTime\<close>.\<close>

fun default_time :: "Reader \<Rightarrow> datetime option \<Rightarrow> datetime option" where
  "default_time self None = startTime self"
| "default_time self (Some t) = Some t"

text \<open>Lines 102 and 103: \<^verbatim>\<open>if isinstance(variables, str): variables = [variables]\<close>.\<close>

fun variables_list :: "variables_arg \<Rightarrow> string list" where
  "variables_list (Str s) = [s]"
| "variables_list (StrList vs) = vs"

text \<open>
  What \<^verbatim>\<open>check_arguments\<close> returns:
  \<^verbatim>\<open>variables, time, x, y, depth, outside\<close>.
\<close>

type_synonym checked =
  "string list \<times> datetime option \<times> real ndarray \<times> real ndarray \<times> real ndarray \<times> nat list"

definition check_arguments ::
  "Reader \<Rightarrow> variables_arg \<Rightarrow> datetime option \<Rightarrow> number_arg \<Rightarrow> number_arg \<Rightarrow> number_arg
     \<Rightarrow> error + checked" where
  "check_arguments self variables0 time0 x0 y0 depth0 =
     (let time = default_time self time0;
          variables = variables_list variables0;
          x = np_asarray x0;
          y = np_asarray y0;
          depth = np_asarray depth0
      in case check_variables (Reader.variables self) variables of
           Some e \<Rightarrow> Inl e
         | None \<Rightarrow>
       (case check_start (startTime self) time of
           Some e \<Rightarrow> Inl e
         | None \<Rightarrow>
       (case check_end (endTime self) time of
           Some e \<Rightarrow> Inl e
         | None \<Rightarrow>
       (case outside_mask self x y of
           Inl e \<Rightarrow> Inl e
         | Inr flagged \<Rightarrow>
       (let outside = np_where0 flagged
        in case len x of
             Inl e \<Rightarrow> Inl e
           | Inr n \<Rightarrow>
               if length outside = n then Inl (AllOutside (all_outside_message self))
               else Inr (variables, time, x, y, depth, outside))))))"

section \<open>\<^verbatim>\<open>Reader.index_of_closest_time\<close>\<close>

text \<open>
  The floats of this method are IEEE doubles. A double is modelled by the rational
  number it stands for, and an operation by the exact result rounded to the nearest
  double, a tie going to the even significand. The exponent is not bounded: every
  quantity the method computes from datetimes of Python's range (years 1 to 9999) lies
  far inside the range of the normal doubles.

  \<open>binade x\<close> is the exponent \<open>e\<close> with \<open>2\<^sup>e \<le> |x| < 2\<^sup>e\<^sup>+\<^sup>1\<close>, found from the bit lengths of
  the numerator and the denominator; \<open>fl x\<close> keeps 53 significant bits of \<open>x\<close>.
\<close>

definition round_half_even :: "rat \<Rightarrow> int" where
  "round_half_even q =
     (let below = \<lfloor>q\<rfloor>; rest = q - of_int below
      in if rest < 1 / 2 then below
         else if 1 / 2 < rest then below + 1
         else if even below then below else below + 1)"

definition binade :: "rat \<Rightarrow> int" where
  "binade x =
     (let (p, q) = quotient_of \<bar>x\<bar>; e = bitlen p - bitlen q
      in if 2 powi e \<le> \<bar>x\<bar> then e else e - 1)"

definition fl :: "rat \<Rightarrow> rat" where
  "fl x =
     (if x = 0 then 0
      else of_int (round_half_even (x / 2 powi (binade x - 52))) * 2 powi (binade x - 52))"

text \<open>
  \<^verbatim>\<open>round\<close> of a float differs between the two lines of Python: Python 2 rounds a tie
  away from zero, Python 3 to the even neighbour. Both are exact on the double they are
  given. The module runs under both, so the model takes the interpreter as an argument.
\<close>

datatype python = Python2 | Python3

fun py_round :: "python \<Rightarrow> rat \<Rightarrow> int" where
  "py_round Python2 q = (if 0 \<le> q then \<lfloor>q + 1 / 2\<rfloor> else \<lceil>q - 1 / 2\<rceil>)"
| "py_round Python3 q = round_half_even q"

text \<open>
  \<^verbatim>\<open>timedelta.total_seconds()\<close>: the true division of the microseconds by \<open>10\<^sup>6\<close>, which
  Python rounds once, to the nearest double.
\<close>

definition total_seconds :: "timedelta \<Rightarrow> rat" where
  "total_seconds d = fl (of_int d / 1000000)"

text \<open>
  \<^verbatim>\<open>seq[i]\<close> on a list or a 1-dimensional array: an index from \<open>-len\<close> to \<open>-1\<close> counts
  from the end, an index outside \<open>-len .. len - 1\<close> raises \<^verbatim>\<open>IndexError\<close>.
\<close>

definition getitem :: "'a list \<Rightarrow> int \<Rightarrow> error + 'a" where
  "getitem seq i =
     (if 0 \<le> i \<and> i < int (length seq) then Inr (seq ! nat i)
      else if - int (length seq) \<le> i \<and> i < 0 then Inr (seq ! nat (int (length seq) + i))
      else Inl IndexError)"

text \<open>
  Lines 133 to 135: the two durations in seconds, their quotient as a double, rounded to
  an integer. Subtracting \<^verbatim>\<open>None\<close> from a datetime is a \<^verbatim>\<open>TypeError\<close> and dividing by
  \<open>0.0\<close> a \<^verbatim>\<open>ZeroDivisionError\<close>.
\<close>

definition closest_index :: "python \<Rightarrow> Reader \<Rightarrow> datetime \<Rightarrow> error + int" where
  "closest_index py self requestedTime =
     (case startTime self of
        None \<Rightarrow> Inl TypeError_operand_None
      | Some start \<Rightarrow>
          if total_seconds (timeStep self) = 0 then Inl ZeroDivisionError
          else Inr (py_round py
                 (fl (total_seconds (requestedTime - start) / total_seconds (timeStep self)))))"

definition index_of_closest_time :: "python \<Rightarrow> Reader \<Rightarrow> datetime \<Rightarrow> error + (int \<times> datetime)" where
  "index_of_closest_time py self requestedTime =
     (case closest_index py self requestedTime of
        Inl e \<Rightarrow> Inl e
      | Inr indx \<Rightarrow>
          (case getitem (times_list self) indx of
             Inl e \<Rightarrow> Inl e
           | Inr nearestTime \<Rightarrow> Inr (indx, nearestTime)))"

section \<open>\<^verbatim>\<open>Reader.indices_min_max_depth\<close>\<close>

text \<open>
  \<^verbatim>\<open>a.min()\<close> and \<^verbatim>\<open>a.max()\<close> of a 1-dimensional array; both raise \<^verbatim>\<open>ValueError\<close> on an
  empty array.
\<close>

fun np_min :: "real list \<Rightarrow> error + real" where
  "np_min [] = Inl ValueError_empty_sequence"
| "np_min (v # vs) = Inr (fold min vs v)"

fun np_max :: "real list \<Rightarrow> error + real" where
  "np_max [] = Inl ValueError_empty_sequence"
| "np_max (v # vs) = Inr (fold max vs v)"

text \<open>
  \<^verbatim>\<open>a.argmin()\<close> and \<^verbatim>\<open>a.argmax()\<close>: one scan that keeps the best value seen and its
  index and replaces them only on a strictly better value, so the first occurrence of
  the extreme value wins. On booleans \<open>False < True\<close>. Both raise \<^verbatim>\<open>ValueError\<close> on an
  empty array.
\<close>

fun argmin_scan :: "'a::linorder \<Rightarrow> nat \<Rightarrow> nat \<Rightarrow> 'a list \<Rightarrow> nat" where
  "argmin_scan best pos i [] = pos"
| "argmin_scan best pos i (v # vs) =
     (if v < best then argmin_scan v i (Suc i) vs else argmin_scan best pos (Suc i) vs)"

fun argmax_scan :: "'a::linorder \<Rightarrow> nat \<Rightarrow> nat \<Rightarrow> 'a list \<Rightarrow> nat" where
  "argmax_scan best pos i [] = pos"
| "argmax_scan best pos i (v # vs) =
     (if best < v then argmax_scan v i (Suc i) vs else argmax_scan best pos (Suc i) vs)"

fun np_argmin :: "'a::linorder list \<Rightarrow> error + nat" where
  "np_argmin [] = Inl ValueError_empty_sequence"
| "np_argmin (v # vs) = Inr (argmin_scan v 0 1 vs)"

fun np_argmax :: "'a::linorder list \<Rightarrow> error + nat" where
  "np_argmax [] = Inl ValueError_empty_sequence"
| "np_argmax (v # vs) = Inr (argmax_scan v 0 1 vs)"

text \<open>
  \<^verbatim>\<open>minIndex = (self.depths <= depths.min()).argmin() - 1\<close> and
  \<^verbatim>\<open>maxIndex = (self.depths >= depths.max()).argmax()\<close>. The indices are Python integers:
  \<open>minIndex\<close> is \<open>-1\<close> when \<^verbatim>\<open>argmin\<close> returns \<open>0\<close>.
\<close>

definition indices_min_max_depth :: "Reader \<Rightarrow> real list \<Rightarrow> error + (int \<times> int)" where
  "indices_min_max_depth self depths_requested =
     (case np_min depths_requested of
        Inl e \<Rightarrow> Inl e
      | Inr lowest \<Rightarrow>
     (case np_argmin (map (\<lambda>d. d \<le> lowest) (depths self)) of
        Inl e \<Rightarrow> Inl e
      | Inr first_above \<Rightarrow>
     (case np_max depths_requested of
        Inl e \<Rightarrow> Inl e
      | Inr highest \<Rightarrow>
     (case np_argmax (map (\<lambda>d. d \<ge> highest) (depths self)) of
        Inl e \<Rightarrow> Inl e
      | Inr first_reaching \<Rightarrow> Inr (int first_above - 1, int first_reaching)))))"

section \<open>Example readers\<close>

text \<open>
  A reader of two wind components on the box \<open>[0, 10] \<times> [5, 10]\<close>, with three samples
  ten microseconds apart and five depth levels; and the same reader on the box
  \<open>[5, 10] \<times> [0, 10]\<close>.
\<close>

definition wind_reader :: Reader where
  "wind_reader =
     \<lparr>name = ''wind'', variables = [''x_wind'', ''y_wind''],
      startTime = Some 0, endTime = Some 20, timeStep = 10, times_list = [0, 10, 20],
      xmin = 0, xmax = 10, ymin = 5, ymax = 10, depths = [0, 10, 20, 30, 50]\<rparr>"

definition east_reader :: Reader where
  "east_reader = wind_reader\<lparr>name := ''east'', xmin := 5, ymin := 0\<rparr>"

text \<open>
  Two readers with very long time steps: three samples \<open>10000000000000002\<close> microseconds
  (about 317 years) apart, and samples \<open>5 \<times> 10\<^sup>1\<^sup>6\<close> microseconds (about 1585 years) apart.
\<close>

definition century_reader :: Reader where
  "century_reader =
     wind_reader\<lparr>name := ''century'', endTime := Some 20000000000000004,
       timeStep := 10000000000000002,
       times_list := [0, 10000000000000002, 20000000000000004]\<rparr>"

definition aeon_reader :: Reader where
  "aeon_reader =
     wind_reader\<lparr>name := ''aeon'', startTime := Some 100000000000000000,
       endTime := Some 200000000000000000, timeStep := 50000000000000000,
       times_list := [100000000000000000, 150000000000000000, 200000000000000000]\<rparr>"

section \<open>The spatial check of \<^verbatim>\<open>check_arguments\<close>\<close>

text \<open>
  C1. The claim: the \<open>outside\<close> index set holds exactly the indices of the points whose
  \<open>x\<close> lies outside \<open>[xmin, xmax]\<close> or whose \<open>y\<close> lies outside \<open>[ymin, ymax]\<close>. The code
  compares \<open>y\<close> with \<open>xmin\<close> where the lower bound \<open>ymin\<close> is meant: on the reader whose
  box is \<open>[0, 10] \<times> [5, 10]\<close> the point \<open>(1, 3)\<close> lies south of the box, and the query
  for the points \<open>(1, 3)\<close> and \<open>(1, 7)\<close> succeeds with an empty \<open>outside\<close>.
\<close>

theorem C1_outside_misses_point_below_ymin:
  "(3::real) < ymin wind_reader \<and>
   check_arguments wind_reader (Str ''x_wind'') None (Array [1, 1]) (Array [3, 7]) (Scalar 0)
     = Inr ([''x_wind''], Some 0, Arr1 [1, 1], Arr1 [3, 7], Arr0 0, [])"
  by (simp add: check_arguments_def outside_mask_def wind_reader_def)

text \<open>
  C2. The claim: the all-points-outside error is raised if and only if every requested
  point lies outside the box. Through the same comparison of \<open>y\<close> with \<open>xmin\<close>, the
  reader on \<open>[5, 10] \<times> [0, 10]\<close> rejects the single point \<open>(6, 3)\<close>, which is inside its
  box, and the reader on \<open>[0, 10] \<times> [5, 10]\<close> accepts the single point \<open>(1, 3)\<close>, which
  is outside its box, with nothing flagged.
\<close>

theorem C2_inside_point_rejected_outside_point_accepted:
  "xmin east_reader \<le> 6 \<and> 6 \<le> xmax east_reader \<and>
   ymin east_reader \<le> 3 \<and> 3 \<le> ymax east_reader \<and>
   check_arguments east_reader (Str ''x_wind'') None (Array [6]) (Array [3]) (Scalar 0)
     = Inl (AllOutside ''All particles are outside domain of reader east'') \<and>
   (3::real) < ymin wind_reader \<and>
   check_arguments wind_reader (Str ''x_wind'') None (Array [1]) (Array [3]) (Scalar 0)
     = Inr ([''x_wind''], Some 0, Arr1 [1], Arr1 [3], Arr0 0, [])"
  by (simp add: check_arguments_def outside_mask_def all_outside_message_def
      wind_reader_def east_reader_def)

section \<open>The variable check of \<^verbatim>\<open>check_arguments\<close>\<close>

subsection \<open>What the message contains\<close>



subsection \<open>The loop over the requested variables\<close>

lemma check_variables_find:
  "check_variables catalog vs =
     (case List.find (\<lambda>v. v \<notin> set catalog) vs of
        None \<Rightarrow> None
      | Some v \<Rightarrow> Some (VariableNotAvailable v catalog))"
  by (induction vs) simp_all

lemma check_variables_None: "check_variables catalog vs = None \<longleftrightarrow> set vs \<subseteq> set catalog"
  by (induction vs) simp_all



lemma check_variables_error_kind:
  "check_variables catalog vs = Some e \<Longrightarrow> \<exists>v. e = VariableNotAvailable v catalog"
  by (induction vs) (auto split: if_splits)

lemma check_start_kind:
  "check_start s t = Some e \<Longrightarrow> e = TypeError_compare_None \<or> (\<exists>a b. e = TimeBeforeFirst a b)"
  by (cases "(s, t)" rule: check_start.cases) (auto split: if_splits)

lemma check_end_kind:
  "check_end s t = Some e \<Longrightarrow> e = TypeError_compare_None \<or> (\<exists>a b. e = TimeAfterLast a b)"
  by (cases "(s, t)" rule: check_end.cases) (auto split: if_splits)

lemma outside_mask_kind:
  "outside_mask self x y = Inl e \<Longrightarrow> e = ValueError_broadcast"
  unfolding outside_mask_def
  by (cases x; cases y) (auto split: if_splits)




section \<open>The time check of \<^verbatim>\<open>check_arguments\<close>\<close>

lemma check_arguments_start_error:
  "check_variables (variables self) (variables_list vs0) = None \<Longrightarrow>
   check_start (startTime self) (default_time self t) = Some e \<Longrightarrow>
   check_arguments self vs0 t x y d = Inl e"
  by (simp add: check_arguments_def)

lemma check_arguments_end_error:
  "check_variables (variables self) (variables_list vs0) = None \<Longrightarrow>
   check_start (startTime self) (default_time self t) = None \<Longrightarrow>
   check_end (endTime self) (default_time self t) = Some e \<Longrightarrow>
   check_arguments self vs0 t x y d = Inl e"
  by (simp add: check_arguments_def)

text \<open>Once the variables and the time have passed, only the spatial check is left.\<close>

lemma check_arguments_spatial:
  assumes "check_variables (variables self) (variables_list vs0) = None"
    and "check_start (startTime self) (default_time self t) = None"
    and "check_end (endTime self) (default_time self t) = None"
  shows "check_arguments self vs0 t x y d = Inl ValueError_broadcast \<or>
         check_arguments self vs0 t x y d = Inl TypeError_len_unsized \<or>
         check_arguments self vs0 t x y d = Inl (AllOutside (all_outside_message self)) \<or>
         (\<exists>out. check_arguments self vs0 t x y d =
            Inr (variables_list vs0, default_time self t, np_asarray x, np_asarray y, np_asarray d, out))"
proof (cases "outside_mask self (np_asarray x) (np_asarray y)")
  case (Inl e)
  with assms outside_mask_kind[OF Inl] show ?thesis by (simp add: check_arguments_def)
next
  case (Inr m)
  with assms show ?thesis
    by (cases "np_asarray x") (simp_all add: check_arguments_def Let_def)
qed

lemma check_start_Some_iff:
  "(\<exists>a b. check_start s t = Some (TimeBeforeFirst a b)) \<longleftrightarrow> (\<exists>s' u. s = Some s' \<and> t = Some u \<and> u < s')"
  by (cases "(s, t)" rule: check_start.cases) auto

lemma check_end_Some_iff:
  "(\<exists>a b. check_end s t = Some (TimeAfterLast a b)) \<longleftrightarrow> (\<exists>e u. s = Some e \<and> t = Some u \<and> e < u)"
  by (cases "(s, t)" rule: check_end.cases) auto

lemma check_start_before: "u < s \<Longrightarrow> check_start (Some s) (Some u) = Some (TimeBeforeFirst u s)"
  by simp

text \<open>
  C4 as stated fails: the variables are checked before the time, so a request for a
  variable outside the catalog at a time before \<open>startTime\<close> raises the variable error,
  not a time error.
\<close>

theorem C4_counterexample_variable_error_first:
  "startTime wind_reader = Some 0 \<and> default_time wind_reader (Some (-5)) = Some (-5) \<and> (-5::int) < 0 \<and>
   check_arguments wind_reader (Str ''sea_water_temperature'') (Some (-5)) (Array [1]) (Array [7]) (Scalar 0)
     = Inl (VariableNotAvailable ''sea_water_temperature'' [''x_wind'', ''y_wind''])"
  by (simp add: check_arguments_def wind_reader_def)

text \<open>
  C4, amended. When every requested variable is in the catalog, \<^verbatim>\<open>check_arguments\<close>
  raises one of its two time errors if and only if the requested time, after the
  default \<open>startTime\<close> has replaced an unset time, is before a defined \<open>startTime\<close> or
  after a defined \<open>endTime\<close>. In particular no time error is raised for a time between
  the two bounds.
\<close>

theorem C4_time_out_of_range:
  assumes "set (variables_list vs0) \<subseteq> set (variables self)"
  shows "((\<exists>a b. check_arguments self vs0 t x y d = Inl (TimeBeforeFirst a b)) \<or>
          (\<exists>a b. check_arguments self vs0 t x y d = Inl (TimeAfterLast a b)))
         \<longleftrightarrow>
         ((\<exists>s u. startTime self = Some s \<and> default_time self t = Some u \<and> u < s) \<or>
          (\<exists>e u. endTime self = Some e \<and> default_time self t = Some u \<and> e < u))"
proof -
  let ?r = "check_arguments self vs0 t x y d"
  let ?time = "default_time self t"
  from assms have cv: "check_variables (variables self) (variables_list vs0) = None"
    by (simp add: check_variables_None)
  show ?thesis
  proof (cases "check_start (startTime self) ?time")
    case (Some e)
    then have r: "?r = Inl e" using cv by (simp add: check_arguments_start_error)
    from check_start_kind[OF Some] show ?thesis
    proof
      assume e: "e = TypeError_compare_None"
      with Some have "?time = None"
        by (cases "(startTime self, ?time)" rule: check_start.cases) (auto split: if_splits)
      with r e show ?thesis by simp
    next
      assume "\<exists>a b. e = TimeBeforeFirst a b"
      then obtain a b where e: "e = TimeBeforeFirst a b" by blast
      with Some have "\<exists>s u. startTime self = Some s \<and> ?time = Some u \<and> u < s"
        using check_start_Some_iff[of "startTime self" ?time] by blast
      with r e show ?thesis by blast
    qed
  next
    case None
    note cs = None
    then have nb: "\<not> (\<exists>s u. startTime self = Some s \<and> ?time = Some u \<and> u < s)"
      using check_start_Some_iff[of "startTime self" ?time] by simp
    show ?thesis
    proof (cases "check_end (endTime self) ?time")
      case (Some e)
      then have r: "?r = Inl e" using cv cs by (simp add: check_arguments_end_error)
      from check_end_kind[OF Some] show ?thesis
      proof
        assume e: "e = TypeError_compare_None"
        with Some have "?time = None"
          by (cases "(endTime self, ?time)" rule: check_end.cases) (auto split: if_splits)
        with r e show ?thesis by simp
      next
        assume "\<exists>a b. e = TimeAfterLast a b"
        then obtain a b where e: "e = TimeAfterLast a b" by blast
        with Some have "\<exists>s u. endTime self = Some s \<and> ?time = Some u \<and> s < u"
          using check_end_Some_iff[of "endTime self" ?time] by blast
        with r e show ?thesis by blast
      qed
    next
      case None
      then have na: "\<not> (\<exists>e u. endTime self = Some e \<and> ?time = Some u \<and> e < u)"
        using check_end_Some_iff[of "endTime self" ?time] by simp
      from check_arguments_spatial[OF cv cs None, of x y d]
      have "\<not> ((\<exists>a b. ?r = Inl (TimeBeforeFirst a b)) \<or> (\<exists>a b. ?r = Inl (TimeAfterLast a b)))"
        by auto
      with nb na show ?thesis by blast
    qed
  qed
qed

theorem C4_time_out_of_range_witness:
  "set (variables_list (Str ''x_wind'')) \<subseteq> set (variables wind_reader) \<and>
   ((\<exists>a b. check_arguments wind_reader (Str ''x_wind'') (Some 25) (Array [1]) (Array [7]) (Scalar 0)
        = Inl (TimeBeforeFirst a b)) \<or>
    (\<exists>a b. check_arguments wind_reader (Str ''x_wind'') (Some 25) (Array [1]) (Array [7]) (Scalar 0)
        = Inl (TimeAfterLast a b)))"
proof -
  have ok: "set (variables_list (Str ''x_wind'')) \<subseteq> set (variables wind_reader)"
    by (simp add: wind_reader_def)
  have "endTime wind_reader = Some 20 \<and> default_time wind_reader (Some 25) = Some 25 \<and> (20::int) < 25"
    by (simp add: wind_reader_def)
  then have "\<exists>e u. endTime wind_reader = Some e \<and> default_time wind_reader (Some 25) = Some u \<and> e < u"
    by blast
  with C4_time_out_of_range [OF ok, of "Some 25" "Array [1]" "Array [7]" "Scalar 0"] ok
  show ?thesis by blast
qed

section \<open>Normalization and scalar positions in \<^verbatim>\<open>check_arguments\<close>\<close>

text \<open>
  C8. A successful call returns the list of variables (a single string promoted to a
  one-element list, a list unchanged), the time (an unset time replaced by
  \<open>startTime\<close>, a given time unchanged) and \<open>x\<close>, \<open>y\<close>, \<open>depth\<close> as arrays (a scalar made
  a 0-dimensional array, an array unchanged). The validation itself runs on the
  normalized values: a single string is checked as the one-element list is, and an
  unset time as \<open>startTime\<close> is.
\<close>

theorem C8_normalized_values_returned:
  "(check_arguments self vs0 t x y d = Inr (vs, time, xa, ya, da, out) \<longrightarrow>
      vs = variables_list vs0 \<and> time = default_time self t \<and>
      xa = np_asarray x \<and> ya = np_asarray y \<and> da = np_asarray d) \<and>
   variables_list (Str s) = [s] \<and> variables_list (StrList l) = l \<and>
   default_time self None = startTime self \<and> default_time self (Some u) = Some u \<and>
   np_asarray (Scalar v) = Arr0 v \<and> np_asarray (Array a) = Arr1 a \<and>
   check_arguments self (Str s) t x y d = check_arguments self (StrList [s]) t x y d \<and>
   check_arguments self vs0 None x y d = check_arguments self vs0 (startTime self) x y d"
proof -
  have "check_arguments self vs0 t x y d = Inr (vs, time, xa, ya, da, out) \<longrightarrow>
      vs = variables_list vs0 \<and> time = default_time self t \<and>
      xa = np_asarray x \<and> ya = np_asarray y \<and> da = np_asarray d"
    by (auto simp: check_arguments_def Let_def split: option.splits sum.splits if_splits)
  moreover have "check_arguments self (Str s) t x y d = check_arguments self (StrList [s]) t x y d"
    by (simp add: check_arguments_def)
  moreover have "default_time self (startTime self) = startTime self"
    by (cases "startTime self") simp_all
  then have "check_arguments self vs0 None x y d = check_arguments self vs0 (startTime self) x y d"
    by (simp add: check_arguments_def)
  ultimately show ?thesis by simp
qed

theorem C8_normalized_values_returned_witness:
  "check_arguments wind_reader (Str ''x_wind'') None (Array [1, 11]) (Array [7, 7]) (Scalar 0)
     = Inr ([''x_wind''], Some 0, Arr1 [1, 11], Arr1 [7, 7], Arr0 0, [1]) \<and>
   [''x_wind''] = variables_list (Str ''x_wind'') \<and>
   Some 0 = default_time wind_reader None \<and>
   Arr1 [1, 11] = np_asarray (Array [1, 11]) \<and>
   Arr1 [7, 7] = np_asarray (Array [7, 7]) \<and>
   Arr0 0 = np_asarray (Scalar 0)"
proof -
  have run: "check_arguments wind_reader (Str ''x_wind'') None (Array [1, 11]) (Array [7, 7]) (Scalar 0)
     = Inr ([''x_wind''], Some 0, Arr1 [1, 11], Arr1 [7, 7], Arr0 0, [1])"
    by (simp add: check_arguments_def outside_mask_def wind_reader_def)
  from C8_normalized_values_returned
         [of wind_reader "Str ''x_wind''" None "Array [1, 11]" "Array [7, 7]" "Scalar 0"
             "[''x_wind'']" "Some 0" "Arr1 [1, 11]" "Arr1 [7, 7]" "Arr0 0" "[1]"] run
  show ?thesis by blast
qed

lemma outside_mask_scalar: "\<exists>m. outside_mask self (Arr0 v) y = Inr m"
  unfolding outside_mask_def by (cases y) simp_all

lemma outside_mask_empty: "outside_mask self (Arr1 []) y = Inr m \<Longrightarrow> m = Arr1 []"
  unfolding outside_mask_def by (cases y) (auto split: if_splits)

text \<open>
  C10. With a scalar \<open>x\<close> the call never returns: \<^verbatim>\<open>np.asarray\<close> makes it a
  0-dimensional array, and once the variables and the time have passed, \<^verbatim>\<open>len(x)\<close>
  raises the \<^verbatim>\<open>TypeError\<close> of an unsized object, whatever \<open>y\<close> is. A call that returns
  was given \<open>x\<close> as an array of at least one element (an empty array raises the
  all-points-outside error). A numpy that refuses \<^verbatim>\<open>np.where\<close> on a 0-dimensional mask
  fails one step earlier; the call does not return there either.
\<close>

theorem C10_scalar_query_never_returns:
  "(\<forall>r. check_arguments self vs0 t (Scalar xv) y d \<noteq> Inr r) \<and>
   (check_variables (variables self) (variables_list vs0) = None \<and>
    check_start (startTime self) (default_time self t) = None \<and>
    check_end (endTime self) (default_time self t) = None \<longrightarrow>
      check_arguments self vs0 t (Scalar xv) y d = Inl TypeError_len_unsized) \<and>
   (\<forall>r. check_arguments self vs0 t x y d = Inr r \<longrightarrow> (\<exists>xs. x = Array xs \<and> 1 \<le> length xs))"
proof -
  obtain m where m: "outside_mask self (Arr0 xv) (np_asarray y) = Inr m"
    using outside_mask_scalar by blast
  have a: "\<forall>r. check_arguments self vs0 t (Scalar xv) y d \<noteq> Inr r"
    using m by (auto simp: check_arguments_def Let_def split: option.splits)
  have b: "check_variables (variables self) (variables_list vs0) = None \<and>
    check_start (startTime self) (default_time self t) = None \<and>
    check_end (endTime self) (default_time self t) = None \<longrightarrow>
      check_arguments self vs0 t (Scalar xv) y d = Inl TypeError_len_unsized"
    using m by (simp add: check_arguments_def)
  have c: "\<forall>r. check_arguments self vs0 t x y d = Inr r \<longrightarrow> (\<exists>xs. x = Array xs \<and> 1 \<le> length xs)"
  proof (intro allI impI)
    fix r assume r: "check_arguments self vs0 t x y d = Inr r"
    show "\<exists>xs. x = Array xs \<and> 1 \<le> length xs"
    proof (cases x)
      case (Scalar v)
      obtain m' where "outside_mask self (Arr0 v) (np_asarray y) = Inr m'"
        using outside_mask_scalar by blast
      with r Scalar show ?thesis
        by (auto simp: check_arguments_def Let_def split: option.splits)
    next
      case (Array xs)
      have "xs \<noteq> []"
      proof
        assume "xs = []"
        with r Array show False
          by (auto simp: check_arguments_def Let_def  dest!: outside_mask_empty
              split: option.splits sum.splits if_splits)
      qed
      with Array show ?thesis by (cases xs) simp_all
    qed
  qed
  from a b c show ?thesis by blast
qed

theorem C10_scalar_query_never_returns_witness:
  "check_variables (variables wind_reader) (variables_list (Str ''x_wind'')) = None \<and>
   check_start (startTime wind_reader) (default_time wind_reader None) = None \<and>
   check_end (endTime wind_reader) (default_time wind_reader None) = None \<and>
   check_arguments wind_reader (Str ''x_wind'') None (Scalar 1) (Scalar 7) (Scalar 0)
     = Inl TypeError_len_unsized"
proof -
  have pre: "check_variables (variables wind_reader) (variables_list (Str ''x_wind'')) = None \<and>
   check_start (startTime wind_reader) (default_time wind_reader None) = None \<and>
   check_end (endTime wind_reader) (default_time wind_reader None) = None"
    by (simp add: wind_reader_def)
  with C10_scalar_query_never_returns
         [of wind_reader "Str ''x_wind''" None 1 "Scalar 7" "Scalar 0"]
  show ?thesis by blast
qed

section \<open>The index of the closest time\<close>

subsection \<open>The rounding error of a double\<close>

lemma round_half_even_error: "\<bar>of_int (round_half_even y) - y\<bar> \<le> 1 / 2"
proof -
  have "of_int \<lfloor>y\<rfloor> \<le> y" "y < of_int \<lfloor>y\<rfloor> + 1" by linarith+
  then show ?thesis unfolding round_half_even_def Let_def by (simp split: if_splits)
qed

lemma binade_bounds:
  assumes "x \<noteq> 0"
  shows "2 powi binade x \<le> \<bar>x\<bar>" and "\<bar>x\<bar> < 2 powi (binade x + 1)"
proof -
  obtain p q where pq: "quotient_of \<bar>x\<bar> = (p, q)" by (cases "quotient_of \<bar>x\<bar>")
  then have q: "0 < q" by (rule quotient_of_denom_pos)
  from pq have x: "\<bar>x\<bar> = of_int p / of_int q" by (rule quotient_of_div)
  from assms have "0 < \<bar>x\<bar>" by simp
  with x q have p: "0 < p" by (simp add: zero_less_divide_iff)
  let ?bp = "bitlen p" and ?bq = "bitlen q"
  from p q have bp: "1 \<le> ?bp" and bq: "1 \<le> ?bq" by (simp_all add: bitlen_alt_def)
  from bitlen_bounds[OF p] have "2 ^ nat (?bp - 1) \<le> p" "p < 2 ^ nat ?bp" by simp_all
  then have "(2::rat) ^ nat (?bp - 1) \<le> of_int p" "of_int p < (2::rat) ^ nat ?bp"
    by (metis of_int_le_iff of_int_numeral of_int_power, metis of_int_less_iff of_int_numeral of_int_power)
  with bp have P: "(2::rat) powi (?bp - 1) \<le> of_int p" "of_int p < (2::rat) powi ?bp"
    by (simp_all add: power_int_def)
  from bitlen_bounds[OF q] have "2 ^ nat (?bq - 1) \<le> q" "q < 2 ^ nat ?bq" by simp_all
  then have "(2::rat) ^ nat (?bq - 1) \<le> of_int q" "of_int q < (2::rat) ^ nat ?bq"
    by (metis of_int_le_iff of_int_numeral of_int_power, metis of_int_less_iff of_int_numeral of_int_power)
  with bq have Q: "(2::rat) powi (?bq - 1) \<le> of_int q" "of_int q < (2::rat) powi ?bq"
    by (simp_all add: power_int_def)
  have pos: "0 < (2::rat) powi n" for n by simp
  from p q have rp: "0 \<le> (of_int p :: rat)" and rq: "0 < (of_int q :: rat)" by simp_all
  have "\<bar>x\<bar> < 2 powi ?bp / 2 powi (?bq - 1)"
    unfolding x by (rule frac_less[OF rp P(2) pos Q(1)])
  also have "\<dots> = 2 powi (?bp - (?bq - 1))"
    by (simp add: power_int_diff[symmetric])
  also have "?bp - (?bq - 1) = ?bp - ?bq + 1" by simp
  finally have up: "\<bar>x\<bar> < 2 powi (?bp - ?bq + 1)" .
  have "2 powi (?bp - 1) / 2 powi ?bq \<le> \<bar>x\<bar>"
    unfolding x by (rule frac_le[OF rp P(1) rq less_imp_le[OF Q(2)]])
  moreover have "2 powi (?bp - 1) / 2 powi ?bq = (2::rat) powi (?bp - 1 - ?bq)"
    by (simp add: power_int_diff[symmetric])
  moreover have "?bp - 1 - ?bq = ?bp - ?bq - 1" by simp
  ultimately have low: "2 powi (?bp - ?bq - 1) \<le> \<bar>x\<bar>" by simp
  have b: "binade x = (if 2 powi (?bp - ?bq) \<le> \<bar>x\<bar> then ?bp - ?bq else ?bp - ?bq - 1)"
    unfolding binade_def pq by (simp add: Let_def)
  show "2 powi binade x \<le> \<bar>x\<bar>" unfolding b using low by simp
  show "\<bar>x\<bar> < 2 powi (binade x + 1)" unfolding b using up by (simp add: not_le)
qed

lemma fl_error: "\<bar>fl x - x\<bar> \<le> \<bar>x\<bar> / 2 ^ 53"
proof (cases "x = 0")
  case True
  then show ?thesis by (simp add: fl_def)
next
  case False
  let ?u = "(2::rat) powi (binade x - 52)"
  have u: "0 < ?u" by simp
  have "fl x - x = (of_int (round_half_even (x / ?u)) - x / ?u) * ?u"
    using False u by (simp add: fl_def field_simps)
  then have "\<bar>fl x - x\<bar> = \<bar>of_int (round_half_even (x / ?u)) - x / ?u\<bar> * ?u"
    using u by (simp add: abs_mult)
  also have "\<dots> \<le> (1 / 2) * ?u"
    using round_half_even_error[of "x / ?u"] u by (intro mult_right_mono) simp_all
  also have "\<dots> = 2 powi binade x / 2 ^ 53"
    by (simp add: power_int_diff)
  also have "\<dots> \<le> \<bar>x\<bar> / 2 ^ 53"
    using binade_bounds(1)[OF False] by (intro divide_right_mono) simp_all
  finally show ?thesis .
qed

lemma fl_relative:
  obtains r where "\<bar>r\<bar> \<le> 1 / 2 ^ 53" and "fl x = x * (1 + r)"
proof (cases "x = 0")
  case True
  then have "\<bar>0::rat\<bar> \<le> 1 / 2 ^ 53" and "fl x = x * (1 + 0)" by (simp_all add: fl_def)
  then show ?thesis by (rule that)
next
  case False
  let ?r = "(fl x - x) / x"
  from fl_error[of x] False have "\<bar>fl x - x\<bar> / \<bar>x\<bar> \<le> 1 / 2 ^ 53"
    by (simp add: field_simps)
  then have "\<bar>?r\<bar> \<le> 1 / 2 ^ 53" by simp
  moreover from False have "fl x = x * (1 + ?r)" by (simp add: field_simps)
  ultimately show ?thesis by (rule that)
qed

lemma fl_eq_0_iff: "fl x = 0 \<longleftrightarrow> x = 0"
proof -
  obtain r where r: "\<bar>r\<bar> \<le> 1 / 2 ^ 53" and x: "fl x = x * (1 + r)" by (rule fl_relative)
  from r have "- (1 / 2 ^ 53) \<le> r" by linarith
  then have "0 < 1 + r" by simp
  with x show ?thesis by simp
qed

lemma three_roundings:
  fixes a b c :: rat
  assumes a: "\<bar>a\<bar> \<le> 1 / 2 ^ 53" and b: "\<bar>b\<bar> \<le> 1 / 2 ^ 53" and c: "\<bar>c\<bar> \<le> 1 / 2 ^ 53"
  shows "\<bar>(1 + a) * (1 + c) / (1 + b) - 1\<bar> \<le> 1 / 2 ^ 51"
proof -
  define u :: rat where "u = 1 / 2 ^ 53"
  have u: "0 < u" "u < 1" by (simp_all add: u_def)
  from a b c have ab: "- u \<le> a" "a \<le> u" "- u \<le> b" "b \<le> u" "- u \<le> c" "c \<le> u"
    unfolding u_def by linarith+
  have up: "(1 + a) * (1 + c) \<le> (1 + u) * (1 + u)"
    using ab u by (intro mult_mono) simp_all
  have lo: "(1 - u) * (1 - u) \<le> (1 + a) * (1 + c)"
    using ab u by (intro mult_mono) simp_all
  from ab u have d: "0 < 1 + b" "1 - u \<le> 1 + b" "1 + b \<le> 1 + u" "0 < 1 - u" by simp_all
  from ab u have nn: "0 \<le> (1 + a) * (1 + c)" "0 \<le> (1 + u) * (1 + u)" by simp_all
  have "(1 + a) * (1 + c) / (1 + b) \<le> (1 + u) * (1 + u) / (1 - u)"
    by (rule frac_le[OF nn(2) up d(4) d(2)])
  also have "\<dots> \<le> 1 + 1 / 2 ^ 51" unfolding u_def by simp
  finally have hi: "(1 + a) * (1 + c) / (1 + b) - 1 \<le> 1 / 2 ^ 51" by linarith
  have "1 - 1 / 2 ^ 51 \<le> (1 - u) * (1 - u) / (1 + u)" unfolding u_def by simp
  also have "\<dots> \<le> (1 + a) * (1 + c) / (1 + b)"
    by (rule frac_le[OF nn(1) lo d(1) d(3)])
  finally have "- (1 / 2 ^ 51) \<le> (1 + a) * (1 + c) / (1 + b) - 1" by linarith
  with hi show ?thesis by linarith
qed

lemma float_quotient_error:
  assumes "B \<noteq> 0"
  shows "\<bar>fl (fl A / fl B) - A / B\<bar> \<le> \<bar>A / B\<bar> / 2 ^ 51"
proof -
  obtain a where a: "\<bar>a\<bar> \<le> 1 / 2 ^ 53" and fa: "fl A = A * (1 + a)" by (rule fl_relative)
  obtain b where b: "\<bar>b\<bar> \<le> 1 / 2 ^ 53" and fb: "fl B = B * (1 + b)" by (rule fl_relative)
  obtain c where c: "\<bar>c\<bar> \<le> 1 / 2 ^ 53" and fq: "fl (fl A / fl B) = fl A / fl B * (1 + c)"
    by (rule fl_relative)
  from b have "- (1 / 2 ^ 53) \<le> b" by linarith
  then have nz: "1 + b \<noteq> 0" by simp
  have "fl A / fl B = A / B * ((1 + a) / (1 + b))"
    unfolding fa fb using assms nz by simp
  with fq have "fl (fl A / fl B) = A / B * ((1 + a) * (1 + c) / (1 + b))"
    by simp
  then have "fl (fl A / fl B) - A / B = A / B * ((1 + a) * (1 + c) / (1 + b) - 1)"
    by (simp add: algebra_simps)
  then have "\<bar>fl (fl A / fl B) - A / B\<bar> = \<bar>A / B\<bar> * \<bar>(1 + a) * (1 + c) / (1 + b) - 1\<bar>"
    by (simp only: abs_mult)
  also have "\<dots> \<le> \<bar>A / B\<bar> * (1 / 2 ^ 51)"
    using three_roundings[OF a b c] by (intro mult_left_mono) simp_all
  finally show ?thesis by simp
qed

subsection \<open>Rounding to an index\<close>

lemma py_round_near:
  assumes "\<bar>q - of_int j\<bar> < 1 / 2"
  shows "py_round py q = j"
proof -
  from assms have lo: "of_int j - 1 / 2 < q" and hi: "q < of_int j + 1 / 2"
    by linarith+
  show ?thesis
  proof (cases py)
    case Python2
    from lo hi have "\<lfloor>q + 1 / 2\<rfloor> = j" unfolding floor_eq_iff by linarith
    moreover from lo hi have "\<lceil>q - 1 / 2\<rceil> = j" unfolding ceiling_eq_iff by linarith
    ultimately show ?thesis using Python2 by simp
  next
    case Python3
    show ?thesis
    proof (cases "of_int j \<le> q")
      case True
      with hi have "\<lfloor>q\<rfloor> = j" unfolding floor_eq_iff by linarith
      with hi Python3 show ?thesis by (simp add: round_half_even_def Let_def)
    next
      case False
      with lo have f: "\<lfloor>q\<rfloor> = j - 1" unfolding floor_eq_iff by simp
      from lo have "1 / 2 < q - of_int (j - 1)" by simp
      with f Python3 show ?thesis by (simp add: round_half_even_def Let_def)
    qed
  qed
qed

lemma py_round_bounds: "q - 1 / 2 \<le> of_int (py_round py q) \<and> of_int (py_round py q) \<le> q + 1 / 2"
proof (cases py)
  case Python2
  have "of_int \<lfloor>q + 1 / 2\<rfloor> \<le> q + 1 / 2" "q + 1 / 2 < of_int \<lfloor>q + 1 / 2\<rfloor> + 1"
       "q - 1 / 2 \<le> of_int \<lceil>q - 1 / 2\<rceil>" "of_int \<lceil>q - 1 / 2\<rceil> - 1 < q - 1 / 2"
    by linarith+
  with Python2 show ?thesis by (simp del: of_int_floor_le; linarith?)
next
  case Python3
  from round_half_even_error[of q] Python3 show ?thesis by (simp; linarith?)
qed

lemma py_round_negative: "q < - (1 / 2) \<Longrightarrow> py_round py q < 0"
  using py_round_bounds[of q py] by linarith

lemma py_round_beyond: "of_int n - 1 / 2 < q \<Longrightarrow> n \<le> py_round py q"
  using py_round_bounds[of q py] by linarith

subsection \<open>The position on the grid\<close>

lemma total_seconds_zero: "total_seconds d = 0 \<longleftrightarrow> d = 0"
  by (simp add: total_seconds_def fl_eq_0_iff)

text \<open>The double the method rounds, and the exact position of the requested time.\<close>

lemma closest_index_eq:
  assumes "startTime self = Some start" and "timeStep self \<noteq> 0"
  shows "closest_index py self req =
           Inr (py_round py (fl (total_seconds (req - start) / total_seconds (timeStep self))))"
  using assms by (simp add: closest_index_def total_seconds_zero)

lemma position_error:
  assumes "step \<noteq> 0"
  shows "\<bar>fl (total_seconds d / total_seconds step) - of_int d / of_int step\<bar>
           \<le> \<bar>of_int d / of_int step\<bar> / 2 ^ 51"
proof -
  from assms have nz: "rat_of_int step / 1000000 \<noteq> 0" by simp
  have "(rat_of_int d / 1000000) / (rat_of_int step / 1000000) = of_int d / of_int step"
    by simp
  with float_quotient_error[OF nz, of "rat_of_int d / 1000000"] show ?thesis
    unfolding total_seconds_def by simp
qed

lemma closest_index_margin:
  assumes start: "startTime self = Some start" and nz: "timeStep self \<noteq> 0"
    and margin: "\<bar>req - start\<bar>
                   < 2 ^ 50 * (\<bar>timeStep self\<bar> - 2 * \<bar>req - (start + j * timeStep self)\<bar>)"
  shows "closest_index py self req = Inr j"
proof -
  let ?s = "rat_of_int (timeStep self)"
  let ?d = "rat_of_int (req - start)"
  let ?t = "?d / ?s"
  let ?q = "fl (total_seconds (req - start) / total_seconds (timeStep self))"
  define S where "S = \<bar>?s\<bar>"
  define A where "A = \<bar>?d\<bar>"
  define E where "E = \<bar>rat_of_int (req - (start + j * timeStep self))\<bar>"
  from nz have S: "0 < S" by (simp add: S_def)
  from margin have "rat_of_int \<bar>req - start\<bar>
      < rat_of_int (2 ^ 50 * (\<bar>timeStep self\<bar> - 2 * \<bar>req - (start + j * timeStep self)\<bar>))"
    by (simp only: of_int_less_iff)
  then have m: "A < 2 ^ 50 * (S - 2 * E)" by (simp add: A_def S_def E_def)
  have "?t - of_int j = rat_of_int (req - (start + j * timeStep self)) / ?s"
    using nz by (simp add: field_simps)
  then have tj: "\<bar>?t - of_int j\<bar> = E / S" by (simp add: E_def S_def)
  have t: "\<bar>?t\<bar> = A / S" by (simp add: A_def S_def)
  from position_error[OF nz, of "req - start"] have "\<bar>?q - ?t\<bar> \<le> A / S / 2 ^ 51"
    unfolding t .
  then have "\<bar>?q - of_int j\<bar> \<le> A / S / 2 ^ 51 + E / S" using tj by linarith
  also have "\<dots> = (A / 2 ^ 51 + E) / S" using S by (simp add: field_simps)
  also have "\<dots> < (S / 2) / S"
    using m S by (intro divide_strict_right_mono) simp_all
  also have "\<dots> = 1 / 2" using S by simp
  finally have "py_round py ?q = j" by (rule py_round_near)
  with closest_index_eq[OF start nz] show ?thesis by simp
qed

lemma getitem_valid: "0 \<le> i \<Longrightarrow> i < int (length seq) \<Longrightarrow> getitem seq i = Inr (seq ! nat i)"
  by (simp add: getitem_def)

lemma getitem_out_of_range:
  "i < - int (length seq) \<or> int (length seq) \<le> i \<Longrightarrow> getitem seq i = Inl IndexError"
  by (auto simp: getitem_def)

lemma index_of_closest_time_margin:
  assumes "startTime self = Some start" and "timeStep self \<noteq> 0"
    and "\<bar>req - start\<bar>
           < 2 ^ 50 * (\<bar>timeStep self\<bar> - 2 * \<bar>req - (start + j * timeStep self)\<bar>)"
    and "0 \<le> j" and "j < int (length (times_list self))"
  shows "index_of_closest_time py self req = Inr (j, times_list self ! nat j)"
  using closest_index_margin[OF assms(1-3)] getitem_valid[OF assms(4,5)]
  by (simp add: index_of_closest_time_def)

lemma nearer_lower:
  fixes g s r :: int
  assumes "min g (g + s) < r" "r < max g (g + s)" "\<bar>r - g\<bar> < \<bar>r - (g + s)\<bar>"
  shows "2 * \<bar>r - g\<bar> < \<bar>s\<bar>"
  using assms by (auto simp: abs_if min_def max_def split: if_splits)

lemma nearer_upper:
  fixes g s r :: int
  assumes "min g (g + s) < r" "r < max g (g + s)" "\<bar>r - (g + s)\<bar> < \<bar>r - g\<bar>"
  shows "2 * \<bar>r - (g + s)\<bar> < \<bar>s\<bar>"
  using assms by (auto simp: abs_if min_def max_def split: if_splits)

lemma margin_within:
  fixes d s e :: int
  assumes "2 * e < s" and "d < 2 ^ 50"
  shows "d < 2 ^ 50 * (s - 2 * e)"
proof -
  from assms(1) have "1 \<le> s - 2 * e" by simp
  then have "(2::int) ^ 50 * 1 \<le> 2 ^ 50 * (s - 2 * e)" by (intro mult_left_mono) simp_all
  with assms(2) show ?thesis by simp
qed

lemma closest_index_before_start:
  assumes start: "startTime self = Some start" and pos: "0 < timeStep self"
    and margin: "2 ^ 51 * timeStep self < (2 ^ 51 - 1) * (2 * (start - req))"
  shows "\<exists>indx. closest_index py self req = Inr indx \<and> indx < 0"
proof -
  let ?s = "rat_of_int (timeStep self)"
  let ?d = "rat_of_int (req - start)"
  let ?q = "fl (total_seconds (req - start) / total_seconds (timeStep self))"
  from pos have s: "0 < ?s" and nz: "timeStep self \<noteq> 0" by simp_all
  from margin pos have "0 < start - req" by (simp add: zero_less_mult_iff) 
  then have d: "?d < 0" by simp
  from margin have "rat_of_int (2 ^ 51 * timeStep self)
      < rat_of_int ((2 ^ 51 - 1) * (2 * (start - req)))"
    by (simp only: of_int_less_iff)
  then have m: "2 ^ 51 * ?s < (2 ^ 51 - 1) * (2 * (- ?d))" by simp
  from d s have "?d / ?s < 0" by (rule divide_neg_pos)
  then have "\<bar>?d / ?s\<bar> = - (?d / ?s)" by (rule abs_of_neg)
  then have t: "\<bar>?d / ?s\<bar> = - ?d / ?s" by (simp only: minus_divide_left)
  from position_error[OF nz, of "req - start"]
  have "?q \<le> ?d / ?s + (- ?d / ?s) / 2 ^ 51" unfolding t by linarith
  also have "\<dots> = (- ((2 ^ 51 - 1) * (2 * (- ?d))) / 2 ^ 52) / ?s"
    using s by (simp add: field_simps)
  also have "\<dots> < (- (2 ^ 51 * ?s) / 2 ^ 52) / ?s"
    using m s by (intro divide_strict_right_mono) simp_all
  also have "\<dots> = - (1 / 2)" using s by simp
  finally have "py_round py ?q < 0" by (rule py_round_negative)
  with closest_index_eq[OF start nz] show ?thesis by simp
qed

lemma closest_index_far_after:
  assumes start: "startTime self = Some start" and pos: "0 < timeStep self"
    and far: "(2 * n + 1) * timeStep self \<le> req - start" and n: "0 \<le> n"
  shows "\<exists>indx. closest_index py self req = Inr indx \<and> n \<le> indx"
proof -
  let ?s = "rat_of_int (timeStep self)"
  let ?d = "rat_of_int (req - start)"
  let ?q = "fl (total_seconds (req - start) / total_seconds (timeStep self))"
  from pos have s: "0 < ?s" and nz: "timeStep self \<noteq> 0" by simp_all
  from far have "rat_of_int ((2 * n + 1) * timeStep self) \<le> ?d"
    by (simp only: of_int_le_iff)
  then have f: "(2 * of_int n + 1) * ?s \<le> ?d" by simp
  define T where "T = ?d / ?s"
  from f s have t1: "2 * of_int n + 1 \<le> T" unfolding T_def by (simp add: pos_le_divide_eq)
  with n have tpos: "0 \<le> T" by simp
  then have t: "\<bar>T\<bar> = T" by (rule abs_of_nonneg)
  from position_error[OF nz, of "req - start"]
  have "T - T / 2 ^ 51 \<le> ?q" unfolding T_def[symmetric] t by linarith
  moreover from tpos have "T / 2 ^ 51 \<le> T / 2" by (intro divide_left_mono) simp_all
  then have "T / 2 \<le> T - T / 2 ^ 51" by linarith
  ultimately have "T / 2 \<le> ?q" by linarith
  with t1 have "of_int n - 1 / 2 < ?q" by linarith
  then have "n \<le> py_round py ?q" by (rule py_round_beyond)
  with closest_index_eq[OF start nz] show ?thesis by simp
qed

text \<open>
  C5 as stated fails close to the midpoint of two grid points, where the rounding of the
  quotient to a double decides: with a step of \<open>10000000000000002\<close> microseconds the
  requested time \<open>15000000000000002\<close> lies strictly between grid points \<open>1\<close> and \<open>2\<close> and
  is nearer to point \<open>1\<close>, the quotient of the two durations is the double \<open>1.5\<close>, and
  both rounding rules give index \<open>2\<close>.
\<close>

theorem C5_counterexample_near_midpoint:
  "startTime century_reader = Some 0 \<and> timeStep century_reader = 10000000000000002 \<and>
   times_list century_reader = [0, 10000000000000002, 20000000000000004] \<and>
   0 + 1 * timeStep century_reader < (15000000000000002::int) \<and>
   (15000000000000002::int) < 0 + (1 + 1) * timeStep century_reader \<and>
   \<bar>15000000000000002 - (0 + 1 * timeStep century_reader)\<bar>
     < \<bar>15000000000000002 - (0 + (1 + 1) * timeStep century_reader)\<bar> \<and>
   index_of_closest_time Python2 century_reader 15000000000000002 = Inr (2, 20000000000000004) \<and>
   index_of_closest_time Python3 century_reader 15000000000000002 = Inr (2, 20000000000000004)"
  by code_simp

text \<open>
  A grid point far enough from \<open>startTime\<close> is not found either: with a step of one
  microsecond the computed index of grid point \<open>2\<^sup>5\<^sup>3 + 1\<close> is \<open>2\<^sup>5\<^sup>3 + 2\<close>, since no
  double lies between \<open>2\<^sup>5\<^sup>3\<close> and \<open>2\<^sup>5\<^sup>3 + 2\<close>. Such a \<open>k\<close> is an index of \<open>times\<close> only for
  a sequence of more than \<open>2\<^sup>5\<^sup>3\<close> entries.
\<close>

lemma closest_index_on_grid_beyond_doubles:
  "startTime (wind_reader\<lparr>timeStep := 1\<rparr>) = Some 0 \<and>
   closest_index Python2 (wind_reader\<lparr>timeStep := 1\<rparr>) (0 + 9007199254740993 * 1)
     = Inr 9007199254740994 \<and>
   closest_index Python3 (wind_reader\<lparr>timeStep := 1\<rparr>) (0 + 9007199254740993 * 1)
     = Inr 9007199254740994"
  by code_simp

text \<open>
  C5, amended. On the grid \<open>startTime + k * timeStep\<close> (any non-zero step), under either
  rounding rule: a requested time on grid point \<open>k\<close>, with \<open>k\<close> an index of \<open>times\<close> below
  \<open>2\<^sup>5\<^sup>0\<close>, gives \<open>(k, times[k])\<close>. A requested time gives \<open>(j, times[j])\<close> whenever it is
  nearer to grid point \<open>j\<close> than half a step by more than the rounding error of the
  quotient, that is when
  \<open>|requestedTime - startTime| < 2\<^sup>5\<^sup>0 * (|timeStep| - 2 * |requestedTime - point j|)\<close>
  in microseconds. That holds for every requested time strictly between two grid points
  and within \<open>2\<^sup>5\<^sup>0\<close> microseconds (more than 35 years) of \<open>startTime\<close>, which gives the
  nearer of the two with the time stored at its index. A tie has no nearer point.
\<close>

theorem C5_index_of_closest_time_regular_grid:
  assumes "startTime self = Some start" and "timeStep self \<noteq> 0"
  shows "(\<forall>k. 0 \<le> k \<and> k < int (length (times_list self)) \<and> k < 2 ^ 50 \<longrightarrow>
            index_of_closest_time py self (start + k * timeStep self)
              = Inr (k, times_list self ! nat k)) \<and>
         (\<forall>j req.
            \<bar>req - start\<bar>
              < 2 ^ 50 * (\<bar>timeStep self\<bar> - 2 * \<bar>req - (start + j * timeStep self)\<bar>) \<and>
            0 \<le> j \<and> j < int (length (times_list self)) \<longrightarrow>
            index_of_closest_time py self req = Inr (j, times_list self ! nat j)) \<and>
         (\<forall>j req.
            min (start + j * timeStep self) (start + (j + 1) * timeStep self) < req \<and>
            req < max (start + j * timeStep self) (start + (j + 1) * timeStep self) \<and>
            \<bar>req - (start + j * timeStep self)\<bar> < \<bar>req - (start + (j + 1) * timeStep self)\<bar> \<and>
            \<bar>req - start\<bar> < 2 ^ 50 \<and>
            0 \<le> j \<and> j < int (length (times_list self)) \<longrightarrow>
            index_of_closest_time py self req = Inr (j, times_list self ! nat j)) \<and>
         (\<forall>j req.
            min (start + j * timeStep self) (start + (j + 1) * timeStep self) < req \<and>
            req < max (start + j * timeStep self) (start + (j + 1) * timeStep self) \<and>
            \<bar>req - (start + (j + 1) * timeStep self)\<bar> < \<bar>req - (start + j * timeStep self)\<bar> \<and>
            \<bar>req - start\<bar> < 2 ^ 50 \<and>
            0 \<le> j + 1 \<and> j + 1 < int (length (times_list self)) \<longrightarrow>
            index_of_closest_time py self req = Inr (j + 1, times_list self ! nat (j + 1)))"
proof (intro conjI allI impI)
  fix k assume k: "0 \<le> k \<and> k < int (length (times_list self)) \<and> k < 2 ^ 50"
  then have "\<bar>k\<bar> * \<bar>timeStep self\<bar> < 2 ^ 50 * \<bar>timeStep self\<bar>"
    using assms(2) by (intro mult_strict_right_mono) simp_all
  then have "\<bar>start + k * timeStep self - start\<bar>
      < 2 ^ 50 * (\<bar>timeStep self\<bar>
          - 2 * \<bar>start + k * timeStep self - (start + k * timeStep self)\<bar>)"
    by (simp add: abs_mult)
  with k show "index_of_closest_time py self (start + k * timeStep self)
      = Inr (k, times_list self ! nat k)"
    using index_of_closest_time_margin[OF assms] by blast
next
  fix j req
  assume "\<bar>req - start\<bar>
              < 2 ^ 50 * (\<bar>timeStep self\<bar> - 2 * \<bar>req - (start + j * timeStep self)\<bar>) \<and>
            0 \<le> j \<and> j < int (length (times_list self))"
  then show "index_of_closest_time py self req = Inr (j, times_list self ! nat j)"
    using index_of_closest_time_margin[OF assms] by blast
next
  fix j req
  let ?g = "start + j * timeStep self"
  assume h: "min ?g (start + (j + 1) * timeStep self) < req \<and>
            req < max ?g (start + (j + 1) * timeStep self) \<and>
            \<bar>req - ?g\<bar> < \<bar>req - (start + (j + 1) * timeStep self)\<bar> \<and>
            \<bar>req - start\<bar> < 2 ^ 50 \<and>
            0 \<le> j \<and> j < int (length (times_list self))"
  have next_point: "start + (j + 1) * timeStep self = ?g + timeStep self"
    by (simp add: algebra_simps)
  from h have "2 * \<bar>req - ?g\<bar> < \<bar>timeStep self\<bar>"
    unfolding next_point by (intro nearer_lower) simp_all
  with h have "\<bar>req - start\<bar> < 2 ^ 50 * (\<bar>timeStep self\<bar> - 2 * \<bar>req - ?g\<bar>)"
    by (intro margin_within) simp_all
  with h show "index_of_closest_time py self req = Inr (j, times_list self ! nat j)"
    using index_of_closest_time_margin[OF assms] by blast
next
  fix j req
  let ?g = "start + j * timeStep self"
  assume h: "min ?g (start + (j + 1) * timeStep self) < req \<and>
            req < max ?g (start + (j + 1) * timeStep self) \<and>
            \<bar>req - (start + (j + 1) * timeStep self)\<bar> < \<bar>req - ?g\<bar> \<and>
            \<bar>req - start\<bar> < 2 ^ 50 \<and>
            0 \<le> j + 1 \<and> j + 1 < int (length (times_list self))"
  have next_point: "start + (j + 1) * timeStep self = ?g + timeStep self"
    by (simp add: algebra_simps)
  from h have "2 * \<bar>req - (?g + timeStep self)\<bar> < \<bar>timeStep self\<bar>"
    unfolding next_point by (intro nearer_upper) simp_all
  then have "2 * \<bar>req - (start + (j + 1) * timeStep self)\<bar> < \<bar>timeStep self\<bar>"
    unfolding next_point .
  with h have "\<bar>req - start\<bar>
      < 2 ^ 50 * (\<bar>timeStep self\<bar> - 2 * \<bar>req - (start + (j + 1) * timeStep self)\<bar>)"
    by (intro margin_within) simp_all
  with h show "index_of_closest_time py self req = Inr (j + 1, times_list self ! nat (j + 1))"
    using index_of_closest_time_margin[OF assms, of req "j + 1"] by blast
qed

theorem C5_index_of_closest_time_regular_grid_witness:
  "startTime wind_reader = Some 0 \<and> timeStep wind_reader \<noteq> 0 \<and>
   index_of_closest_time Python2 wind_reader (0 + 2 * timeStep wind_reader) = Inr (2, 20) \<and>
   index_of_closest_time Python3 wind_reader 13 = Inr (1, 10) \<and>
   index_of_closest_time Python3 wind_reader 17 = Inr (2, 20)"
proof -
  have start: "startTime wind_reader = Some 0" and step: "timeStep wind_reader \<noteq> 0"
    and [simp]: "timeStep wind_reader = 10" "times_list wind_reader = [0, 10, 20]"
    by (simp_all add: wind_reader_def)
  note grid = C5_index_of_closest_time_regular_grid [OF start step]
  from grid [of Python2] have "0 \<le> (2::int) \<and> 2 < int (length (times_list wind_reader)) \<and>
      (2::int) < 2 ^ 50 \<longrightarrow>
      index_of_closest_time Python2 wind_reader (0 + 2 * timeStep wind_reader)
        = Inr (2, times_list wind_reader ! nat 2)"
    by blast
  then have a: "index_of_closest_time Python2 wind_reader (0 + 2 * timeStep wind_reader) = Inr (2, 20)"
    by simp
  from grid [of Python3] have
    "min (0 + 1 * timeStep wind_reader) (0 + (1 + 1) * timeStep wind_reader) < 13 \<and>
     13 < max (0 + 1 * timeStep wind_reader) (0 + (1 + 1) * timeStep wind_reader) \<and>
     \<bar>13 - (0 + 1 * timeStep wind_reader)\<bar> < \<bar>13 - (0 + (1 + 1) * timeStep wind_reader)\<bar> \<and>
     \<bar>13 - 0\<bar> < (2::int) ^ 50 \<and>
     0 \<le> (1::int) \<and> 1 < int (length (times_list wind_reader)) \<longrightarrow>
     index_of_closest_time Python3 wind_reader 13 = Inr (1, times_list wind_reader ! nat 1)"
    by blast
  then have b: "index_of_closest_time Python3 wind_reader 13 = Inr (1, 10)"
    by simp
  from grid [of Python3] have
    "min (0 + 1 * timeStep wind_reader) (0 + (1 + 1) * timeStep wind_reader) < 17 \<and>
     17 < max (0 + 1 * timeStep wind_reader) (0 + (1 + 1) * timeStep wind_reader) \<and>
     \<bar>17 - (0 + (1 + 1) * timeStep wind_reader)\<bar> < \<bar>17 - (0 + 1 * timeStep wind_reader)\<bar> \<and>
     \<bar>17 - 0\<bar> < (2::int) ^ 50 \<and>
     0 \<le> (1::int) + 1 \<and> 1 + 1 < int (length (times_list wind_reader)) \<longrightarrow>
     index_of_closest_time Python3 wind_reader 17 = Inr (1 + 1, times_list wind_reader ! nat (1 + 1))"
    by blast
  then have c: "index_of_closest_time Python3 wind_reader 17 = Inr (2, 20)"
    by simp
  from start step a b c show ?thesis by blast
qed

text \<open>
  C9 as stated fails twice. A requested time more than \<open>len(times)\<close> steps before
  \<open>startTime\<close> gives an index below \<open>-len(times)\<close>, and the lookup raises \<^verbatim>\<open>IndexError\<close>
  instead of yielding an element counted from the end. And with a step of \<open>5 \<times> 10\<^sup>1\<^sup>6\<close>
  microseconds, a requested time \<open>25000000000000001\<close> microseconds before \<open>startTime\<close> is
  more than half a step before it, the quotient is the double \<open>-0.5\<close>, and Python 3
  rounds it to the index \<open>0\<close>.
\<close>

theorem C9_counterexample_index_error_and_index_zero:
  "startTime wind_reader = Some 0 \<and> timeStep wind_reader = 10 \<and>
   times_list wind_reader = [0, 10, 20] \<and> timeStep wind_reader < 2 * (0 - (- 100)) \<and>
   index_of_closest_time Python2 wind_reader (- 100) = Inl IndexError \<and>
   index_of_closest_time Python3 wind_reader (- 100) = Inl IndexError \<and>
   startTime aeon_reader = Some 100000000000000000 \<and>
   timeStep aeon_reader = 50000000000000000 \<and>
   timeStep aeon_reader < 2 * (100000000000000000 - 74999999999999999) \<and>
   closest_index Python3 aeon_reader 74999999999999999 = Inr 0 \<and>
   index_of_closest_time Python3 aeon_reader 74999999999999999 = Inr (0, 100000000000000000)"
  by code_simp

text \<open>
  C9, amended. No bound is checked. For a positive step below \<open>2\<^sup>5\<^sup>0\<close> microseconds, or
  whenever the requested time is more than half a step before \<open>startTime\<close> by more than
  the rounding error of the quotient
  (\<open>2\<^sup>5\<^sup>1 * timeStep < (2\<^sup>5\<^sup>1 - 1) * 2 * (startTime - requestedTime)\<close>), a requested time
  more than half a step before \<open>startTime\<close> gives a negative index; the lookup then
  yields the element counted from the end when the index is at least \<open>-len(times)\<close> and
  raises \<^verbatim>\<open>IndexError\<close> when it is below. For a requested time far enough after the last
  sample the index is at least \<open>len(times)\<close> and the lookup raises \<^verbatim>\<open>IndexError\<close>.
\<close>

theorem C9_no_bounds_check:
  assumes "startTime self = Some start" and "0 < timeStep self"
  shows "(\<forall>req.
            2 ^ 51 * timeStep self < (2 ^ 51 - 1) * (2 * (start - req)) \<or>
            timeStep self < 2 ^ 50 \<and> timeStep self < 2 * (start - req) \<longrightarrow>
            (\<exists>indx. closest_index py self req = Inr indx \<and> indx < 0 \<and>
               index_of_closest_time py self req =
                 (if - int (length (times_list self)) \<le> indx
                  then Inr (indx, times_list self ! nat (int (length (times_list self)) + indx))
                  else Inl IndexError))) \<and>
         (\<exists>far. \<forall>req. far \<le> req \<longrightarrow>
            (\<exists>indx. closest_index py self req = Inr indx \<and> int (length (times_list self)) \<le> indx \<and>
               index_of_closest_time py self req = Inl IndexError))"
proof (intro conjI allI impI)
  fix req
  assume h: "2 ^ 51 * timeStep self < (2 ^ 51 - 1) * (2 * (start - req)) \<or>
            timeStep self < 2 ^ 50 \<and> timeStep self < 2 * (start - req)"
  have "2 ^ 51 * timeStep self < (2 ^ 51 - 1) * (2 * (start - req))"
    using h by (rule disjE) simp_all
  from closest_index_before_start[OF assms this] obtain indx where
    i: "closest_index py self req = Inr indx" and neg: "indx < 0"
    by blast
  from i neg have "index_of_closest_time py self req =
        (if - int (length (times_list self)) \<le> indx
         then Inr (indx, times_list self ! nat (int (length (times_list self)) + indx))
         else Inl IndexError)"
    by (simp add: index_of_closest_time_def getitem_def)
  with i neg
  show "\<exists>indx. closest_index py self req = Inr indx \<and> indx < 0 \<and>
               index_of_closest_time py self req =
                 (if - int (length (times_list self)) \<le> indx
                  then Inr (indx, times_list self ! nat (int (length (times_list self)) + indx))
                  else Inl IndexError)"
    by blast
next
  let ?n = "int (length (times_list self))"
  have "\<exists>indx. closest_index py self req = Inr indx \<and> ?n \<le> indx \<and>
               index_of_closest_time py self req = Inl IndexError"
    if far: "start + (2 * ?n + 1) * timeStep self \<le> req" for req
  proof -
    from far have "(2 * ?n + 1) * timeStep self \<le> req - start" by simp
    from closest_index_far_after[OF assms this] obtain indx where
      i: "closest_index py self req = Inr indx" and big: "?n \<le> indx"
      by auto
    from big have "getitem (times_list self) indx = Inl IndexError"
      by (simp add: getitem_out_of_range)
    with i big show ?thesis by (simp add: index_of_closest_time_def)
  qed
  then show "\<exists>far. \<forall>req. far \<le> req \<longrightarrow>
            (\<exists>indx. closest_index py self req = Inr indx \<and> ?n \<le> indx \<and>
               index_of_closest_time py self req = Inl IndexError)"
    by blast
qed

theorem C9_no_bounds_check_witness:
  "startTime wind_reader = Some 0 \<and> 0 < timeStep wind_reader \<and>
   timeStep wind_reader < 2 ^ 50 \<and> timeStep wind_reader < 2 * (0 - (- 6)) \<and>
   index_of_closest_time Python2 wind_reader (- 6) = Inr (- 1, 20) \<and>
   (\<exists>far. index_of_closest_time Python2 wind_reader far = Inl IndexError)"
proof -
  have start: "startTime wind_reader = Some 0" and step: "0 < timeStep wind_reader"
    and [simp]: "timeStep wind_reader = 10" "times_list wind_reader = [0, 10, 20]"
    by (simp_all add: wind_reader_def)
  note c9 = C9_no_bounds_check [OF start step]
  have small: "timeStep wind_reader < 2 ^ 50 \<and> timeStep wind_reader < 2 * (0 - (- 6))"
    by simp
  with c9 [of Python2] obtain indx where
    i: "closest_index Python2 wind_reader (- 6) = Inr indx"
       "index_of_closest_time Python2 wind_reader (- 6) =
          (if - int (length (times_list wind_reader)) \<le> indx
           then Inr (indx, times_list wind_reader ! nat (int (length (times_list wind_reader)) + indx))
           else Inl IndexError)"
    by blast
  have "closest_index Python2 wind_reader (- 6) = Inr (- 1)"
    by code_simp
  with i(1) have "indx = - 1" by simp
  with i(2) have a: "index_of_closest_time Python2 wind_reader (- 6) = Inr (- 1, 20)"
    by simp
  from c9 [of Python2] obtain far where
    "\<forall>req. far \<le> req \<longrightarrow> index_of_closest_time Python2 wind_reader req = Inl IndexError"
    by blast
  then have "index_of_closest_time Python2 wind_reader far = Inl IndexError" by simp
  then have b: "\<exists>far. index_of_closest_time Python2 wind_reader far = Inl IndexError" by blast
  from start step small a b show ?thesis by blast
qed

section \<open>The depth range\<close>

subsection \<open>The scans on boolean arrays\<close>

lemma argmin_scan_False: "argmin_scan False pos i bs = pos"
  by (induction bs arbitrary: i) simp_all

lemma argmin_scan_True:
  "argmin_scan True pos i bs =
     (if False \<in> set bs then i + length (takeWhile (\<lambda>b. b) bs) else pos)"
proof (induction bs arbitrary: i)
  case Nil
  show ?case by simp
next
  case (Cons b bs)
  show ?case
  proof (cases b)
    case True
    with Cons.IH[of "Suc i"] show ?thesis by simp
  next
    case False
    then show ?thesis by (simp add: argmin_scan_False)
  qed
qed

lemma argmax_scan_True: "argmax_scan True pos i bs = pos"
  by (induction bs arbitrary: i) simp_all

lemma argmax_scan_False:
  "argmax_scan False pos i bs =
     (if True \<in> set bs then i + length (takeWhile (\<lambda>b. \<not> b) bs) else pos)"
proof (induction bs arbitrary: i)
  case Nil
  show ?case by simp
next
  case (Cons b bs)
  show ?case
  proof (cases b)
    case True
    then show ?thesis by (simp add: argmax_scan_True)
  next
    case False
    with Cons.IH[of "Suc i"] show ?thesis by simp
  qed
qed

lemma np_argmin_bool:
  "bs \<noteq> [] \<Longrightarrow>
   np_argmin bs = Inr (if False \<in> set bs then length (takeWhile (\<lambda>b. b) bs) else 0)"
proof (cases bs)
  case (Cons b rest)
  then show ?thesis
    by (cases b) (simp_all add: argmin_scan_True argmin_scan_False)
qed simp

lemma np_argmax_bool:
  "bs \<noteq> [] \<Longrightarrow>
   np_argmax bs = Inr (if True \<in> set bs then length (takeWhile (\<lambda>b. \<not> b) bs) else 0)"
proof (cases bs)
  case (Cons b rest)
  then show ?thesis
    by (cases b) (simp_all add: argmax_scan_True argmax_scan_False)
qed simp

text \<open>The two scans on the comparisons of the depth axis with a bound.\<close>

lemma first_above:
  fixes ds :: "real list"
  assumes "ds \<noteq> []"
  shows "np_argmin (map (\<lambda>d. d \<le> lowest) ds) =
     Inr (if \<exists>d \<in> set ds. lowest < d then length (takeWhile (\<lambda>d. d \<le> lowest) ds) else 0)"
proof -
  let ?bs = "map (\<lambda>d. d \<le> lowest) ds"
  from assms have "?bs \<noteq> []" by simp
  then have "np_argmin ?bs = Inr (if False \<in> set ?bs then length (takeWhile (\<lambda>b. b) ?bs) else 0)"
    by (rule np_argmin_bool)
  moreover have "False \<in> set ?bs \<longleftrightarrow> (\<exists>d \<in> set ds. lowest < d)"
    by (auto simp: image_iff not_le)
  moreover have "length (takeWhile (\<lambda>b. b) ?bs) = length (takeWhile (\<lambda>d. d \<le> lowest) ds)"
    by (simp add: takeWhile_map comp_def)
  ultimately show ?thesis by simp
qed

lemma first_reaching:
  fixes ds :: "real list"
  assumes "ds \<noteq> []"
  shows "np_argmax (map (\<lambda>d. highest \<le> d) ds) =
     Inr (if \<exists>d \<in> set ds. highest \<le> d then length (takeWhile (\<lambda>d. d < highest) ds) else 0)"
proof -
  let ?bs = "map (\<lambda>d. highest \<le> d) ds"
  from assms have "?bs \<noteq> []" by simp
  then have "np_argmax ?bs = Inr (if True \<in> set ?bs then length (takeWhile (\<lambda>b. \<not> b) ?bs) else 0)"
    by (rule np_argmax_bool)
  moreover have "True \<in> set ?bs \<longleftrightarrow> (\<exists>d \<in> set ds. highest \<le> d)"
    by (auto simp: image_iff)
  moreover have "(\<lambda>d. \<not> highest \<le> d) = (\<lambda>d. d < highest)"
    by (simp add: not_le)
  then have "length (takeWhile (\<lambda>b. \<not> b) ?bs) = length (takeWhile (\<lambda>d. d < highest) ds)"
    by (simp add: takeWhile_map comp_def)
  ultimately show ?thesis by simp
qed

lemma np_min_Min: "req \<noteq> [] \<Longrightarrow> np_min req = Inr (Min (set req))"
proof (cases req)
  case (Cons a l)
  have "fold min l a = Min (set (a # l))" by (rule Min.set_eq_fold[symmetric])
  with Cons show ?thesis by (simp del: set_simps)
qed simp

lemma np_max_Max: "req \<noteq> [] \<Longrightarrow> np_max req = Inr (Max (set req))"
proof (cases req)
  case (Cons a l)
  have "fold max l a = Max (set (a # l))" by (rule Max.set_eq_fold[symmetric])
  with Cons show ?thesis by (simp del: set_simps)
qed simp

lemma indices_min_max_depth_eq:
  assumes "depths self \<noteq> []" and "np_min req = Inr lowest" and "np_max req = Inr highest"
  shows "indices_min_max_depth self req =
     Inr (int (if \<exists>d \<in> set (depths self). lowest < d
               then length (takeWhile (\<lambda>d. d \<le> lowest) (depths self)) else 0) - 1,
          int (if \<exists>d \<in> set (depths self). highest \<le> d
               then length (takeWhile (\<lambda>d. d < highest) (depths self)) else 0))"
  unfolding indices_min_max_depth_def assms(2,3) first_above[OF assms(1)] first_reaching[OF assms(1)]
  by (simp only: sum.case)

lemma takeWhile_stops:
  assumes "\<exists>x \<in> set xs. \<not> P x"
  shows "length (takeWhile P xs) < length xs"
    and "\<not> P (xs ! length (takeWhile P xs))"
proof -
  from assms have "takeWhile P xs \<noteq> xs" by (simp add: takeWhile_eq_all_conv)
  then have "length (takeWhile P xs) \<noteq> length xs"
    by (metis takeWhile_eq_take take_all order_refl)
  with length_takeWhile_le[of P xs] show l: "length (takeWhile P xs) < length xs"
    by simp
  then show "\<not> P (xs ! length (takeWhile P xs))" by (rule nth_length_takeWhile)
qed

lemma takeWhile_before: "i < length (takeWhile P xs) \<Longrightarrow> P (xs ! i)"
  by (metis nth_mem set_takeWhileD takeWhile_nth)

lemma np_min_le_np_max:
  assumes "np_min req = Inr lowest" and "np_max req = Inr highest"
  shows "lowest \<le> highest" and "highest \<in> set req" and "lowest \<in> set req"
proof -
  from assms(1) have ne: "set req \<noteq> {}" by (cases req) simp_all
  then have "req \<noteq> []" by simp
  with assms have l: "lowest = Min (set req)" and h: "highest = Max (set req)"
    by (simp_all add: np_min_Min np_max_Max)
  have fin: "finite (set req)" by simp
  from fin ne show hin: "highest \<in> set req" unfolding h by (rule Max_in)
  from fin ne show "lowest \<in> set req" unfolding l by (rule Min_in)
  from fin hin show "lowest \<le> highest" unfolding l by (rule Min_le)
qed

subsection \<open>A depth axis that reaches strictly below the shallowest requested depth\<close>

text \<open>
  On a strictly increasing axis that starts at or above the shallowest requested depth's
  level, reaches the deepest requested depth and has a level strictly deeper than the
  shallowest requested depth, the method returns the largest index whose level is at
  most the shallowest requested depth and the first index whose level is at least the
  deepest one. The example of the specification is an instance.
\<close>

lemma indices_min_max_depth_covering:
  assumes sorted: "sorted_wrt (<) (depths self)" and ne: "depths self \<noteq> []"
    and lo: "np_min req = Inr lowest" and hi: "np_max req = Inr highest"
    and first: "hd (depths self) \<le> lowest" and last: "highest \<le> last (depths self)"
    and deeper: "lowest < last (depths self)"
  shows "\<exists>i j. indices_min_max_depth self req = Inr (int i, int j) \<and>
           i < length (depths self) \<and> depths self ! i \<le> lowest \<and>
           (\<forall>k < length (depths self). depths self ! k \<le> lowest \<longrightarrow> k \<le> i) \<and>
           j < length (depths self) \<and> highest \<le> depths self ! j \<and>
           (\<forall>k < j. depths self ! k < highest)"
proof -
  let ?ds = "depths self"
  let ?a = "length (takeWhile (\<lambda>d. d \<le> lowest) ?ds)"
  let ?b = "length (takeWhile (\<lambda>d. d < highest) ?ds)"
  from ne have mem: "last ?ds \<in> set ?ds" by simp
  with deeper have ex_a: "\<exists>d \<in> set ?ds. lowest < d" by blast
  from mem last have ex_b: "\<exists>d \<in> set ?ds. highest \<le> d" by blast
  from ex_a ex_b have res: "indices_min_max_depth self req = Inr (int ?a - 1, int ?b)"
    using indices_min_max_depth_eq[OF ne lo hi] by simp
  from ex_a have "\<exists>d \<in> set ?ds. \<not> d \<le> lowest" by (simp add: not_le)
  from takeWhile_stops[OF this] have a_lt: "?a < length ?ds" and a_above: "lowest < ?ds ! ?a"
    by (simp_all add: not_le)
  from ex_b have "\<exists>d \<in> set ?ds. \<not> d < highest" by (simp add: not_less)
  from takeWhile_stops[OF this] have b_lt: "?b < length ?ds" and b_reach: "highest \<le> ?ds ! ?b"
    by (simp_all add: not_less)
  from ne first have a_pos: "0 < ?a" by (cases ?ds) simp_all
  then have idx: "int ?a - 1 = int (?a - 1)" by (simp add: of_nat_diff del: length_greater_0_conv)
  from a_pos have "?a - 1 < ?a" by linarith
  then have below: "?ds ! (?a - 1) \<le> lowest"
    by (rule takeWhile_before[of _ "\<lambda>d. d \<le> lowest"])
  have largest: "k \<le> ?a - 1" if k: "k < length ?ds" and le: "?ds ! k \<le> lowest" for k
  proof (rule ccontr)
    assume "\<not> k \<le> ?a - 1"
    then have "?a \<le> k" by simp
    then have "?ds ! ?a \<le> ?ds ! k"
    proof (cases "?a = k")
      case True then show ?thesis by simp
    next
      case False
      with \<open>?a \<le> k\<close> have "?a < k" by simp
      with sorted have "?ds ! ?a < ?ds ! k" using k by (rule sorted_wrt_nth_less)
      then show ?thesis by simp
    qed
    with a_above le show False by simp
  qed
  have before: "?ds ! k < highest" if "k < ?b" for k
    using that by (rule takeWhile_before)
  have "indices_min_max_depth self req = Inr (int (?a - 1), int ?b) \<and>
           ?a - 1 < length ?ds \<and> ?ds ! (?a - 1) \<le> lowest \<and>
           (\<forall>k < length ?ds. ?ds ! k \<le> lowest \<longrightarrow> k \<le> ?a - 1) \<and>
           ?b < length ?ds \<and> highest \<le> ?ds ! ?b \<and>
           (\<forall>k < ?b. ?ds ! k < highest)"
  proof (intro conjI allI impI)
    show "indices_min_max_depth self req = Inr (int (?a - 1), int ?b)"
      using res unfolding idx .
    from a_lt show "?a - 1 < length ?ds" by linarith
    show "?ds ! (?a - 1) \<le> lowest" by (rule below)
    show "highest \<le> ?ds ! ?b" by (rule b_reach)
    show "?b < length ?ds" by (rule b_lt)
  next
    fix k assume "k < length ?ds" and "?ds ! k \<le> lowest"
    then show "k \<le> ?a - 1" by (rule largest)
  next
    fix k assume "k < ?b"
    then show "?ds ! k < highest" by (rule before)
  qed
  then show ?thesis by blast
qed

lemma indices_min_max_depth_example:
  "depths wind_reader = [0, 10, 20, 30, 50] \<and>
   indices_min_max_depth wind_reader [12, 25] = Inr (1, 3)"
  by (simp add: indices_min_max_depth_def wind_reader_def)

text \<open>
  C6. The claim: on a non-empty increasing axis that spans the requested range,
  \<open>minIndex\<close> is the largest index whose level is at most the shallowest requested depth.
  When that depth is the deepest level, every comparison \<^verbatim>\<open>self.depths <= depths.min()\<close>
  is true, \<^verbatim>\<open>argmin\<close> returns \<open>0\<close> and \<open>minIndex\<close> is \<open>-1\<close>: on the levels
  \<open>[0, 10, 20, 30, 50]\<close> a request for the depth \<open>50\<close> gives \<open>(-1, 4)\<close>, where the largest
  index with a level at most \<open>50\<close> is \<open>4\<close>.
\<close>

theorem C6_min_index_at_deepest_level:
  "sorted_wrt (<) (depths wind_reader) \<and> length (depths wind_reader) = 5 \<and>
   depths wind_reader ! 0 \<le> 50 \<and> depths wind_reader ! 4 = 50 \<and>
   indices_min_max_depth wind_reader [50] = Inr (- 1, 4)"
  by (simp add: indices_min_max_depth_def wind_reader_def)

text \<open>
  C7 as stated fails. When the deepest requested depth is below the axis, no comparison
  \<^verbatim>\<open>self.depths >= depths.max()\<close> is true, \<^verbatim>\<open>argmax\<close> returns \<open>0\<close> and \<open>minIndex\<close> exceeds
  \<open>maxIndex\<close>. When the shallowest requested depth is above the axis, \<open>minIndex\<close> is \<open>-1\<close>,
  not the nearest boundary \<open>0\<close>. An empty request and an empty axis raise \<^verbatim>\<open>ValueError\<close>,
  so that no pair is returned.
\<close>

theorem C7_counterexample_no_clamping:
  "depths wind_reader = [0, 10, 20, 30, 50] \<and>
   indices_min_max_depth wind_reader [15, 100] = Inr (1, 0) \<and> \<not> (1::int) \<le> 0 \<and>
   indices_min_max_depth wind_reader [- 5, 25] = Inr (- 1, 3) \<and>
   indices_min_max_depth wind_reader [] = Inl ValueError_empty_sequence \<and>
   indices_min_max_depth (wind_reader\<lparr>depths := []\<rparr>) [12, 25] = Inl ValueError_empty_sequence"
  by (simp add: indices_min_max_depth_def wind_reader_def)

text \<open>
  C7, amended. For a non-empty axis and a non-empty request the method returns a pair
  whose two lookups \<open>depths[minIndex]\<close> and \<open>depths[maxIndex]\<close> are defined under Python's
  indexing, with \<open>0 \<le> maxIndex \<le> len(depths) - 1\<close>. Nothing is clamped;
  \<open>minIndex \<le> maxIndex\<close> holds when the axis is strictly increasing and its last level is
  at least every requested depth.
\<close>

theorem C7_indices_valid:
  assumes "depths self \<noteq> []" and "depths_requested \<noteq> []"
  shows "\<exists>minIndex maxIndex.
     indices_min_max_depth self depths_requested = Inr (minIndex, maxIndex) \<and>
     0 \<le> maxIndex \<and> maxIndex \<le> int (length (depths self)) - 1 \<and>
     (\<exists>a b. getitem (depths self) minIndex = Inr a \<and> getitem (depths self) maxIndex = Inr b) \<and>
     (sorted_wrt (<) (depths self) \<and> (\<forall>d \<in> set depths_requested. d \<le> last (depths self))
        \<longrightarrow> minIndex \<le> maxIndex)"
proof -
  let ?ds = "depths self"
  from assms(2) obtain lowest highest where
    lo: "np_min depths_requested = Inr lowest" and hi: "np_max depths_requested = Inr highest"
    by (simp add: np_min_Min np_max_Max)
  define a where "a = (if \<exists>d \<in> set ?ds. lowest < d
                       then length (takeWhile (\<lambda>d. d \<le> lowest) ?ds) else 0)"
  define b where "b = (if \<exists>d \<in> set ?ds. highest \<le> d
                       then length (takeWhile (\<lambda>d. d < highest) ?ds) else 0)"
  have res: "indices_min_max_depth self depths_requested = Inr (int a - 1, int b)"
    unfolding a_def b_def by (rule indices_min_max_depth_eq[OF assms(1) lo hi])
  from assms(1) have len: "0 < length ?ds" by simp
  have a: "a < length ?ds"
    unfolding a_def using len takeWhile_stops(1)[of ?ds "\<lambda>d. d \<le> lowest"]
    by (auto simp: not_le)
  have b: "b < length ?ds"
    unfolding b_def using len takeWhile_stops(1)[of ?ds "\<lambda>d. d < highest"]
    by (auto simp: not_less)
  have ga: "\<exists>v. getitem ?ds (int a - 1) = Inr v"
    using a by (auto simp: getitem_def)
  have gb: "\<exists>v. getitem ?ds (int b) = Inr v"
    using b by (auto simp: getitem_def)
  have ord: "int a - 1 \<le> int b"
    if sorted: "sorted_wrt (<) ?ds" and cover: "\<forall>d \<in> set depths_requested. d \<le> last ?ds"
  proof (cases "\<exists>d \<in> set ?ds. lowest < d")
    case False
    then show ?thesis by (simp add: a_def)
  next
    case True
    then have a_eq: "a = length (takeWhile (\<lambda>d. d \<le> lowest) ?ds)" by (simp add: a_def)
    from np_min_le_np_max[OF lo hi] cover have "highest \<le> last ?ds" and lh: "lowest \<le> highest"
      by simp_all
    moreover from assms(1) have "last ?ds \<in> set ?ds" by simp
    ultimately have ex: "\<exists>d \<in> set ?ds. highest \<le> d" by blast
    then have b_eq: "b = length (takeWhile (\<lambda>d. d < highest) ?ds)" by (simp add: b_def)
    from ex have "\<exists>d \<in> set ?ds. \<not> d < highest" by (simp add: not_less)
    from takeWhile_stops(2)[OF this] have reach: "highest \<le> ?ds ! b"
      by (simp add: b_eq not_less)
    have "a \<le> b + 1"
    proof (rule ccontr)
      assume "\<not> a \<le> b + 1"
      then have lt: "b + 1 < a" by simp
      then have "?ds ! (b + 1) \<le> lowest" unfolding a_eq by (rule takeWhile_before)
      moreover from lt a have "b < b + 1" "b + 1 < length ?ds" by simp_all
      with sorted have "?ds ! b < ?ds ! (b + 1)" by (rule sorted_wrt_nth_less)
      ultimately show False using reach lh by simp
    qed
    then show ?thesis by simp
  qed
  have "indices_min_max_depth self depths_requested = Inr (int a - 1, int b) \<and>
     0 \<le> int b \<and> int b \<le> int (length ?ds) - 1 \<and>
     (\<exists>v w. getitem ?ds (int a - 1) = Inr v \<and> getitem ?ds (int b) = Inr w) \<and>
     (sorted_wrt (<) ?ds \<and> (\<forall>d \<in> set depths_requested. d \<le> last ?ds)
        \<longrightarrow> int a - 1 \<le> int b)"
  proof (intro conjI impI)
    show "indices_min_max_depth self depths_requested = Inr (int a - 1, int b)" by (rule res)
    show "0 \<le> int b" by simp
    from b show "int b \<le> int (length ?ds) - 1" by simp
    from ga gb show "\<exists>v w. getitem ?ds (int a - 1) = Inr v \<and> getitem ?ds (int b) = Inr w"
      by blast
  next
    assume "sorted_wrt (<) ?ds \<and> (\<forall>d \<in> set depths_requested. d \<le> last ?ds)"
    then show "int a - 1 \<le> int b" using ord by blast
  qed
  then show ?thesis by blast
qed

theorem C7_indices_valid_witness:
  "depths wind_reader \<noteq> [] \<and> [12, 25] \<noteq> ([] :: real list) \<and>
   indices_min_max_depth wind_reader [12, 25] = Inr (1, 3) \<and>
   (\<exists>a b. getitem (depths wind_reader) 1 = Inr a \<and> getitem (depths wind_reader) 3 = Inr b)"
proof -
  have ne: "depths wind_reader \<noteq> []" and req: "[12, 25] \<noteq> ([] :: real list)"
    by (simp_all add: wind_reader_def)
  have run: "indices_min_max_depth wind_reader [12, 25] = Inr (1, 3)"
    by (simp add: indices_min_max_depth_def wind_reader_def)
  from C7_indices_valid [OF ne req] obtain minIndex maxIndex where
    r: "indices_min_max_depth wind_reader [12, 25] = Inr (minIndex, maxIndex)" and
    g: "\<exists>a b. getitem (depths wind_reader) minIndex = Inr a \<and>
               getitem (depths wind_reader) maxIndex = Inr b"
    by blast
  from r run have "minIndex = 1" "maxIndex = 3" by simp_all
  with g ne req run show ?thesis by simp
qed

end
